theory Spec2Isabelle
  imports Complex_Main "HOL-Library.Char_ord" "HOL-Library.List_Lexorder"
    "HOL-Library.Product_Lexorder"
begin

section \<open>Configuration\<close>

text \<open>
  Rates are Python floats. For the engine they are modelled as (finite) real numbers: the
  smoothing update requires a finite sample, and rounding is not modelled. The batch
  driver, which can feed its copy of the engine with an infinity or NaN, has floats with
  the special values (section "Batch driver"). The threshold table holds numbers and the
  literal \<^verbatim>\<open>float('inf')\<close>, so a threshold is either finite or plus infinity.
\<close>

datatype threshold = Fin real | PInf

text \<open>\<^verbatim>\<open>smoothed_rps >= t\<close> and \<^verbatim>\<open>smoothed_rps < t\<close> for a finite rate and a threshold.\<close>

fun rate_ge :: "real \<Rightarrow> threshold \<Rightarrow> bool" where
  "rate_ge s (Fin t) = (t \<le> s)"
| "rate_ge s PInf = False"

fun rate_lt :: "real \<Rightarrow> threshold \<Rightarrow> bool" where
  "rate_lt s (Fin t) = (s < t)"
| "rate_lt s PInf = True"

text \<open>
  \<^verbatim>\<open>class AutoscalerConfig\<close> of reactive.py (the fields the engine reads); reactivemodel.py
  holds the same values in module constants.
\<close>

record AutoscalerConfig =
  COOLDOWN_PERIOD :: int
  EMA_ALPHA :: real
  MIN_REPLICAS :: int
  MAX_REPLICAS :: int
  RPS_THRESHOLDS :: "int \<rightharpoonup> threshold \<times> threshold"

definition config :: AutoscalerConfig where
  "config = \<lparr> COOLDOWN_PERIOD = 60, EMA_ALPHA = 7 / 10, MIN_REPLICAS = 1, MAX_REPLICAS = 10,
     RPS_THRESHOLDS = map_of
       [(1, (Fin 10, Fin 0)),
        (2, (Fin 30, Fin 8)),
        (3, (Fin 60, Fin 25)),
        (4, (Fin 100, Fin 50)),
        (5, (PInf, Fin 90))] \<rparr>"

definition CONTROL_INTERVAL :: int where
  "CONTROL_INTERVAL = 30"

section \<open>Data structures\<close>

text \<open>
  \<^verbatim>\<open>ServiceState\<close>, for the engine on finite rates: the record is polymorphic in the
  timestamp and the history entry, and the live state extends it with the service name.
  The batch file's own state, whose rates can be any float, is \<open>BatchServiceState\<close>.
\<close>

record ('t, 'h) ServiceState =
  current_replicas :: int
  raw_rps :: real
  smoothed_rps :: real
  last_scale_time :: 't
  scale_history :: "'h list"

record ('t, 'h) LiveServiceState = "('t, 'h) ServiceState" +
  service_name :: string

datatype error = KeyError int

text \<open>The reason strings are f-strings; a reason keeps the message kind and its values.\<close>

datatype reason =
    ScaleUpThreshold real threshold
  | ExceedsAll real
  | ScaleDownThreshold real threshold
  | BelowMinimum real
  | StableRange real threshold threshold

datatype 't gate_reason = NoChangeNeeded | InCooldown 't | CooldownExpired

section \<open>Scaling logic\<close>

definition update_smoothed_rps ::
  "AutoscalerConfig \<Rightarrow> ('t, 'h, 'm) ServiceState_scheme \<Rightarrow> real
    \<Rightarrow> ('t, 'h, 'm) ServiceState_scheme \<times> real" where
  "update_smoothed_rps cfg state new_rps =
     (let state1 =
        (if smoothed_rps state = 0
         then state\<lparr>smoothed_rps := new_rps\<rparr>
         else state\<lparr>smoothed_rps :=
                EMA_ALPHA cfg * new_rps + (1 - EMA_ALPHA cfg) * smoothed_rps state\<rparr>);
          state2 = state1\<lparr>raw_rps := new_rps\<rparr>
      in (state2, smoothed_rps state2))"

text \<open>The scale-up loop over \<^verbatim>\<open>range(current_replicas + 1, MAX_REPLICAS + 1)\<close>.\<close>

fun scan_up :: "(int \<rightharpoonup> threshold \<times> threshold) \<Rightarrow> real \<Rightarrow> int list \<Rightarrow> error + int option" where
  "scan_up tbl s [] = Inr None"
| "scan_up tbl s (replicas # rest) =
     (case tbl replicas of
        None \<Rightarrow> Inl (KeyError replicas)
      | Some (up_thresh, _) \<Rightarrow>
          if rate_lt s up_thresh then Inr (Some replicas) else scan_up tbl s rest)"

text \<open>The scale-down loop over \<^verbatim>\<open>range(current_replicas - 1, MIN_REPLICAS - 1, -1)\<close>.\<close>

fun scan_down ::
  "(int \<rightharpoonup> threshold \<times> threshold) \<Rightarrow> int \<Rightarrow> real \<Rightarrow> int list \<Rightarrow> error + int option" where
  "scan_down tbl lo s [] = Inr None"
| "scan_down tbl lo s (replicas # rest) =
     (case tbl replicas of
        None \<Rightarrow> Inl (KeyError replicas)
      | Some (_, down_thresh) \<Rightarrow>
          if rate_ge s down_thresh \<or> replicas = lo then Inr (Some replicas)
          else scan_down tbl lo s rest)"

definition desired_replicas :: "AutoscalerConfig \<Rightarrow> int \<Rightarrow> real \<Rightarrow> error + int \<times> reason" where
  "desired_replicas cfg current smoothed =
     (case RPS_THRESHOLDS cfg current of
        None \<Rightarrow> Inl (KeyError current)
      | Some (scale_up_threshold, scale_down_threshold) \<Rightarrow>
          if rate_ge smoothed scale_up_threshold \<and> current < MAX_REPLICAS cfg then
            (case scan_up (RPS_THRESHOLDS cfg) smoothed [current + 1..MAX_REPLICAS cfg] of
               Inl e \<Rightarrow> Inl e
             | Inr (Some replicas) \<Rightarrow> Inr (replicas, ScaleUpThreshold smoothed scale_up_threshold)
             | Inr None \<Rightarrow> Inr (MAX_REPLICAS cfg, ExceedsAll smoothed))
          else if rate_lt smoothed scale_down_threshold \<and> current > MIN_REPLICAS cfg then
            (case scan_down (RPS_THRESHOLDS cfg) (MIN_REPLICAS cfg) smoothed
                    (rev [MIN_REPLICAS cfg..current - 1]) of
               Inl e \<Rightarrow> Inl e
             | Inr (Some replicas) \<Rightarrow>
                 Inr (replicas, ScaleDownThreshold smoothed scale_down_threshold)
             | Inr None \<Rightarrow> Inr (MIN_REPLICAS cfg, BelowMinimum smoothed))
          else Inr (current, StableRange smoothed scale_down_threshold scale_up_threshold))"


text \<open>
  The cooldown gate. The batch file passes the time bucket, the live engine reads the clock;
  both compare \<^verbatim>\<open>current_time - state.last_scale_time\<close> with the cooldown period.
  The message keeps the remaining wait (the live engine prints it truncated to an integer).
\<close>

definition should_scale ::
  "AutoscalerConfig \<Rightarrow> ('t :: linordered_idom, 'h, 'm) ServiceState_scheme \<Rightarrow> 't \<Rightarrow> int
    \<Rightarrow> bool \<times> 't gate_reason" where
  "should_scale cfg state current_time desired =
     (if desired = current_replicas state then (True, NoChangeNeeded)
      else
        let time_since_last_scale = current_time - last_scale_time state in
        if time_since_last_scale < of_int (COOLDOWN_PERIOD cfg)
        then (False, InCooldown (of_int (COOLDOWN_PERIOD cfg) - time_since_last_scale))
        else (True, CooldownExpired))"

text \<open>The dataclass defaults: the state a \<^verbatim>\<open>defaultdict\<close> creates for an unseen service.\<close>

definition new_ServiceState :: "('t :: zero, 'h) ServiceState" where
  "new_ServiceState = \<lparr> current_replicas = 1, raw_rps = 0, smoothed_rps = 0,
     last_scale_time = 0, scale_history = [] \<rparr>"

text \<open>
  \<^verbatim>\<open>service_states[service]\<close> on a \<^verbatim>\<open>defaultdict\<close>: the stored state, or a new default
  one for an unseen service (the drivers store the state back after their updates).
\<close>

definition defaultdict_get :: "'s \<Rightarrow> (string \<rightharpoonup> 's) \<Rightarrow> string \<Rightarrow> 's" where
  "defaultdict_get default_state m k = (case m k of None \<Rightarrow> default_state | Some st \<Rightarrow> st)"

text \<open>
  The values stored by successive calls of the smoothing update on one state, one per
  sample.
\<close>

fun smoothed_sequence ::
  "AutoscalerConfig \<Rightarrow> ('t, 'h, 'm) ServiceState_scheme \<Rightarrow> real list \<Rightarrow> real list" where
  "smoothed_sequence cfg state [] = []"
| "smoothed_sequence cfg state (s # samples) =
     (case update_smoothed_rps cfg state s of
        (state', _) \<Rightarrow> smoothed_rps state' # smoothed_sequence cfg state' samples)"

section \<open>Batch driver (reactivemodel.py)\<close>

subsection \<open>Floats\<close>

text \<open>
  The batch file feeds its own copy of the engine with whatever the dataset and the
  aggregation produce: a finite number, an infinity (an \<^verbatim>\<open>inf\<close> cell, or a sum that
  overflows) or NaN. Its rates are therefore floats with the special values. A finite float
  is modelled by its real value (rounding of the mantissa is not modelled); a result beyond
  the largest double overflows to an infinity.
\<close>

datatype pyfloat = Finite real | PosInf | NegInf | NaN

definition MAX_FLOAT :: real where
  "MAX_FLOAT = (2 ^ 53 - 1) * 2 ^ 971"

definition overflow :: "real \<Rightarrow> pyfloat" where
  "overflow x =
     (if MAX_FLOAT < x then PosInf else if x < - MAX_FLOAT then NegInf else Finite x)"

fun float_add :: "pyfloat \<Rightarrow> pyfloat \<Rightarrow> pyfloat" where
  "float_add (Finite a) (Finite b) = overflow (a + b)"
| "float_add NaN _ = NaN"
| "float_add _ NaN = NaN"
| "float_add PosInf NegInf = NaN"
| "float_add NegInf PosInf = NaN"
| "float_add PosInf _ = PosInf"
| "float_add _ PosInf = PosInf"
| "float_add NegInf _ = NegInf"
| "float_add _ NegInf = NegInf"

text \<open>The product of an infinity and a finite factor: its sign, or NaN for the factor 0.\<close>

definition signed_inf :: "bool \<Rightarrow> real \<Rightarrow> pyfloat" where
  "signed_inf positive b =
     (if b = 0 then NaN else if (0 < b) = positive then PosInf else NegInf)"

fun float_mul :: "pyfloat \<Rightarrow> pyfloat \<Rightarrow> pyfloat" where
  "float_mul (Finite a) (Finite b) = overflow (a * b)"
| "float_mul NaN _ = NaN"
| "float_mul _ NaN = NaN"
| "float_mul PosInf (Finite b) = signed_inf True b"
| "float_mul NegInf (Finite b) = signed_inf False b"
| "float_mul (Finite a) PosInf = signed_inf True a"
| "float_mul (Finite a) NegInf = signed_inf False a"
| "float_mul PosInf PosInf = PosInf"
| "float_mul NegInf NegInf = PosInf"
| "float_mul PosInf NegInf = NegInf"
| "float_mul NegInf PosInf = NegInf"

text \<open>
  \<^verbatim>\<open>smoothed_rps >= t\<close> and \<^verbatim>\<open>smoothed_rps < t\<close> for a float and a threshold: every
  comparison with NaN is false, and \<^verbatim>\<open>inf < inf\<close> is false.
\<close>

fun float_ge :: "pyfloat \<Rightarrow> threshold \<Rightarrow> bool" where
  "float_ge (Finite s) (Fin t) = (t \<le> s)"
| "float_ge (Finite s) PInf = False"
| "float_ge PosInf _ = True"
| "float_ge NegInf _ = False"
| "float_ge NaN _ = False"

fun float_lt :: "pyfloat \<Rightarrow> threshold \<Rightarrow> bool" where
  "float_lt (Finite s) (Fin t) = (s < t)"
| "float_lt (Finite s) PInf = True"
| "float_lt PosInf _ = False"
| "float_lt NegInf _ = True"
| "float_lt NaN _ = False"

text \<open>The column sum of a group, added up in row order.\<close>

definition float_sum :: "pyfloat list \<Rightarrow> pyfloat" where
  "float_sum xs = foldl float_add (Finite 0) xs"

subsection \<open>The engine of the batch file\<close>

datatype action_kind = UPSCALE | DOWNSCALE | BLOCKED | NO_CHANGE

text \<open>The reasons of \<^verbatim>\<open>desired_replicas_with_hysteresis\<close>, with the values they print.\<close>

datatype hysteresis_reason =
    AboveScaleUp pyfloat threshold
  | ExceedsAllThresholds pyfloat
  | BelowScaleDown pyfloat threshold
  | BelowMinimumThreshold pyfloat
  | WithinStableRange pyfloat threshold threshold

datatype decision_reason = Scaling hysteresis_reason | Gate "int gate_reason"

text \<open>
  \<^verbatim>\<open>ServiceState\<close> of reactivemodel.py: integer timestamps, float rates and history
  tuples (time, replicas, rps, reason).
\<close>

record BatchServiceState =
  st_current_replicas :: int
  st_raw_rps :: pyfloat
  st_smoothed_rps :: pyfloat
  st_last_scale_time :: int
  st_scale_history :: "(int \<times> int \<times> pyfloat \<times> decision_reason) list"

definition new_BatchServiceState :: BatchServiceState where
  "new_BatchServiceState = \<lparr> st_current_replicas = 1, st_raw_rps = Finite 0,
     st_smoothed_rps = Finite 0, st_last_scale_time = 0, st_scale_history = [] \<rparr>"

text \<open>The module constants of reactivemodel.py are the values of \<open>config\<close>.\<close>

definition update_smoothed_rps_batch ::
  "BatchServiceState \<Rightarrow> pyfloat \<Rightarrow> BatchServiceState \<times> pyfloat" where
  "update_smoothed_rps_batch state new_rps =
     (let state1 =
        (if st_smoothed_rps state = Finite 0
         then state\<lparr>st_smoothed_rps := new_rps\<rparr>
         else state\<lparr>st_smoothed_rps :=
                float_add (float_mul (Finite (EMA_ALPHA config)) new_rps)
                          (float_mul (Finite (1 - EMA_ALPHA config)) (st_smoothed_rps state))\<rparr>);
          state2 = state1\<lparr>st_raw_rps := new_rps\<rparr>
      in (state2, st_smoothed_rps state2))"

text \<open>The loop over \<^verbatim>\<open>range(current_replicas + 1, MAX_REPLICAS + 1)\<close>.\<close>

fun scale_up_loop :: "pyfloat \<Rightarrow> int list \<Rightarrow> error + int option" where
  "scale_up_loop s [] = Inr None"
| "scale_up_loop s (replicas # rest) =
     (case RPS_THRESHOLDS config replicas of
        None \<Rightarrow> Inl (KeyError replicas)
      | Some (up_thresh, _) \<Rightarrow>
          if float_lt s up_thresh then Inr (Some replicas) else scale_up_loop s rest)"

text \<open>The loop over \<^verbatim>\<open>range(current_replicas - 1, MIN_REPLICAS - 1, -1)\<close>.\<close>

fun scale_down_loop :: "pyfloat \<Rightarrow> int list \<Rightarrow> error + int option" where
  "scale_down_loop s [] = Inr None"
| "scale_down_loop s (replicas # rest) =
     (case RPS_THRESHOLDS config replicas of
        None \<Rightarrow> Inl (KeyError replicas)
      | Some (_, down_thresh) \<Rightarrow>
          if float_ge s down_thresh \<or> replicas = MIN_REPLICAS config then Inr (Some replicas)
          else scale_down_loop s rest)"

definition desired_replicas_with_hysteresis ::
  "int \<Rightarrow> pyfloat \<Rightarrow> error + int \<times> hysteresis_reason" where
  "desired_replicas_with_hysteresis current smoothed =
     (case RPS_THRESHOLDS config current of
        None \<Rightarrow> Inl (KeyError current)
      | Some (scale_up_threshold, scale_down_threshold) \<Rightarrow>
          if float_ge smoothed scale_up_threshold \<and> current < MAX_REPLICAS config then
            (case scale_up_loop smoothed [current + 1..MAX_REPLICAS config] of
               Inl e \<Rightarrow> Inl e
             | Inr (Some replicas) \<Rightarrow> Inr (replicas, AboveScaleUp smoothed scale_up_threshold)
             | Inr None \<Rightarrow> Inr (MAX_REPLICAS config, ExceedsAllThresholds smoothed))
          else if float_lt smoothed scale_down_threshold \<and> current > MIN_REPLICAS config then
            (case scale_down_loop smoothed (rev [MIN_REPLICAS config..current - 1]) of
               Inl e \<Rightarrow> Inl e
             | Inr (Some replicas) \<Rightarrow>
                 Inr (replicas, BelowScaleDown smoothed scale_down_threshold)
             | Inr None \<Rightarrow> Inr (MIN_REPLICAS config, BelowMinimumThreshold smoothed))
          else Inr (current,
                 WithinStableRange smoothed scale_down_threshold scale_up_threshold))"

definition should_scale_batch ::
  "BatchServiceState \<Rightarrow> int \<Rightarrow> int \<Rightarrow> bool \<times> int gate_reason" where
  "should_scale_batch state current_time desired =
     (if desired = st_current_replicas state then (True, NoChangeNeeded)
      else
        let time_since_last_scale = current_time - st_last_scale_time state in
        if time_since_last_scale < COOLDOWN_PERIOD config
        then (False, InCooldown (COOLDOWN_PERIOD config - time_since_last_scale))
        else (True, CooldownExpired))"

subsection \<open>The dataset\<close>

text \<open>
  A row of the dataset, as its cells are written: the entity (or nothing), and for the
  two numeric columns a number, \<^verbatim>\<open>inf\<close>, \<^verbatim>\<open>-inf\<close>, \<^verbatim>\<open>nan\<close>, or something that is
  not a number (\<open>None\<close>).
\<close>

record csv_row =
  item :: "string option"
  timestamp :: "pyfloat option"
  request_rate :: "pyfloat option"

text \<open>
  \<^verbatim>\<open>pd.to_numeric(errors="coerce")\<close>: a cell that is not a number becomes NaN, a number
  beyond the largest double an infinity.
\<close>

fun to_numeric :: "pyfloat option \<Rightarrow> pyfloat" where
  "to_numeric None = NaN"
| "to_numeric (Some (Finite x)) = overflow x"
| "to_numeric (Some v) = v"

text \<open>\<^verbatim>\<open>dropna(subset=["timestamp", "request_rate"])\<close>: (item, timestamp, request_rate).\<close>

fun dropna :: "csv_row list \<Rightarrow> (string option \<times> pyfloat \<times> pyfloat) list" where
  "dropna [] = []"
| "dropna (r # rs) =
     (if to_numeric (timestamp r) = NaN \<or> to_numeric (request_rate r) = NaN then dropna rs
      else (item r, to_numeric (timestamp r), to_numeric (request_rate r)) # dropna rs)"

text \<open>
  \<^verbatim>\<open>(timestamp // CONTROL_INTERVAL) * CONTROL_INTERVAL\<close>, which the loop reads back with
  \<^verbatim>\<open>int(...)\<close>. Floor division of an infinity gives NaN (\<open>None\<close> here).
\<close>

fun time_bucket_of :: "pyfloat \<Rightarrow> int option" where
  "time_bucket_of (Finite t) = Some (\<lfloor>t / of_int CONTROL_INTERVAL\<rfloor> * CONTROL_INTERVAL)"
| "time_bucket_of _ = None"

text \<open>
  \<^verbatim>\<open>groupby(["time_bucket", "item"]).sum()\<close>, sorted by \<^verbatim>\<open>["time_bucket", "item"]\<close>:
  one row (time_bucket, item, total_rps) for each distinct key. A row whose bucket is NaN
  or whose entity is missing belongs to no group.
\<close>

fun keyed_rows ::
  "(string option \<times> pyfloat \<times> pyfloat) list \<Rightarrow> ((int \<times> string) \<times> pyfloat) list" where
  "keyed_rows [] = []"
| "keyed_rows ((it, t, q) # rs) =
     (case (time_bucket_of t, it) of
        (Some b, Some name) \<Rightarrow> ((b, name), q) # keyed_rows rs
      | _ \<Rightarrow> keyed_rows rs)"

definition bucketed :: "csv_row list \<Rightarrow> ((int \<times> string) \<times> pyfloat) list" where
  "bucketed df = keyed_rows (dropna df)"

definition total_rps :: "((int \<times> string) \<times> pyfloat) list \<Rightarrow> int \<times> string \<Rightarrow> pyfloat" where
  "total_rps rows k = float_sum (map snd (filter (\<lambda>r. fst r = k) rows))"

definition grouped :: "csv_row list \<Rightarrow> (int \<times> string \<times> pyfloat) list" where
  "grouped df =
     map (\<lambda>k. (fst k, snd k, total_rps (bucketed df) k))
         (sort (remdups (map fst (bucketed df))))"

subsection \<open>The simulation loop\<close>

record event =
  ev_time_bucket :: int
  ev_service :: string
  ev_raw_rps :: pyfloat
  ev_smoothed_rps :: pyfloat
  ev_prev_replicas :: int
  ev_new_replicas :: int
  ev_action :: action_kind
  ev_reason :: decision_reason

text \<open>
  The local variables of \<^verbatim>\<open>main\<close> that the loop updates. Every event is printed when
  it is recorded; the events are written to the result file when the loop has ended.
\<close>

record simulation =
  service_states :: "string \<rightharpoonup> BatchServiceState"
  events :: "event list"
  total_scales :: int
  upscales :: int
  downscales :: int
  cooldown_blocks :: int

text \<open>
  One pass of the loop body for a row (time_bucket, item, total_rps): the variables after
  the pass, and the \<^verbatim>\<open>KeyError\<close> of the table lookup if it was raised (the smoothing
  update has then already changed the state, and no event is recorded).
\<close>

fun process_row :: "simulation \<Rightarrow> int \<times> string \<times> pyfloat \<Rightarrow> simulation \<times> error option" where
  "process_row sim (tb, svc, raw) =
       (let state0 = defaultdict_get new_BatchServiceState (service_states sim) svc;
            (state1, smoothed) = update_smoothed_rps_batch state0 raw
        in case desired_replicas_with_hysteresis (st_current_replicas state1) smoothed of
             Inl e \<Rightarrow> (sim\<lparr>service_states := (service_states sim)(svc \<mapsto> state1)\<rparr>, Some e)
           | Inr (desired, scaling_reason) \<Rightarrow>
               let (can_scale, cooldown_reason) = should_scale_batch state1 tb desired;
                   prev = st_current_replicas state1;
                   (state2, act, why) =
                     (if desired > prev then
                        (if can_scale
                         then (state1\<lparr>st_current_replicas := desired, st_last_scale_time := tb\<rparr>,
                               UPSCALE, Scaling scaling_reason)
                         else (state1, BLOCKED, Gate cooldown_reason))
                      else if desired < prev then
                        (if can_scale
                         then (state1\<lparr>st_current_replicas := desired, st_last_scale_time := tb\<rparr>,
                               DOWNSCALE, Scaling scaling_reason)
                         else (state1, BLOCKED, Gate cooldown_reason))
                      else (state1, NO_CHANGE, Scaling scaling_reason));
                   state3 = state2\<lparr>st_scale_history := st_scale_history state2 @
                              [(tb, st_current_replicas state2, smoothed, why)]\<rparr>
               in (sim\<lparr>
                    service_states := (service_states sim)(svc \<mapsto> state3),
                    events := events sim @
                      [\<lparr> ev_time_bucket = tb, ev_service = svc, ev_raw_rps = raw,
                         ev_smoothed_rps = smoothed, ev_prev_replicas = prev,
                         ev_new_replicas = st_current_replicas state3, ev_action = act,
                         ev_reason = why \<rparr>],
                    total_scales := total_scales sim +
                      (if act = UPSCALE \<or> act = DOWNSCALE then 1 else 0),
                    upscales := upscales sim + (if act = UPSCALE then 1 else 0),
                    downscales := downscales sim + (if act = DOWNSCALE then 1 else 0),
                    cooldown_blocks := cooldown_blocks sim + (if act = BLOCKED then 1 else 0)\<rparr>,
                   None))"

text \<open>The loop: it ends with the last row, or with the first exception.\<close>

fun process_rows ::
  "simulation \<Rightarrow> (int \<times> string \<times> pyfloat) list \<Rightarrow> simulation \<times> error option" where
  "process_rows sim [] = (sim, None)"
| "process_rows sim (row # rows) =
     (case process_row sim row of
        (sim', Some e) \<Rightarrow> (sim', Some e)
      | (sim', None) \<Rightarrow> process_rows sim' rows)"

definition initial_simulation :: simulation where
  "initial_simulation = \<lparr> service_states = Map.empty, events = [], total_scales = 0,
     upscales = 0, downscales = 0, cooldown_blocks = 0 \<rparr>"

text \<open>
  \<^verbatim>\<open>main\<close>: the variables when the loop is left, and the exception that left it, if any
  (the result file and the summary are then not written).
\<close>

definition main :: "csv_row list \<Rightarrow> simulation \<times> error option" where
  "main df = process_rows initial_simulation (grouped df)"

text \<open>An applied scaling action: the replica count and the last-scale time were written.\<close>

definition applied :: "event \<Rightarrow> bool" where
  "applied e = (ev_action e = UPSCALE \<or> ev_action e = DOWNSCALE)"

section \<open>Live driver (reactive.py)\<close>

record history_entry =
  h_timestamp :: string
  h_action :: action_kind
  h_from :: int
  h_to :: int
  h_rps :: real
  h_reason :: reason

type_synonym LiveState = "(real, history_entry) LiveServiceState"

definition new_LiveServiceState :: LiveState where
  "new_LiveServiceState = \<lparr> current_replicas = 1, raw_rps = 0, smoothed_rps = 0,
     last_scale_time = 0, scale_history = [], service_name = [] \<rparr>"

text \<open>
  What the collaborators answer during one call of \<^verbatim>\<open>process_service\<close>: the metrics
  query, the replica lookup, the success flag of the scaling request, the two readings of
  \<^verbatim>\<open>time.time()\<close> (in the gate, and when the action is recorded) and the ISO timestamp.
\<close>

record collaborators =
  get_rps :: "real option"
  get_current_replicas :: "int option"
  scale_deployment :: bool
  time_in_gate :: real
  time_applied :: real
  now_isoformat :: string

text \<open>
  The outcome of one call: the state mapping, the scaling request sent to the control
  plane (if any) and the exception that left the call (if any).
\<close>

record outcome =
  states :: "string \<rightharpoonup> LiveState"
  scale_request :: "(string \<times> int) option"
  raised :: "error option"

definition process_service ::
  "AutoscalerConfig \<Rightarrow> collaborators \<Rightarrow> (string \<rightharpoonup> LiveState) \<Rightarrow> string \<Rightarrow> outcome" where
  "process_service cfg env sts svc =
     (let state0 = defaultdict_get new_LiveServiceState sts svc;
          state = state0\<lparr>service_name := svc\<rparr>
      in (case get_rps env of
           None \<Rightarrow> \<lparr> states = sts(svc \<mapsto> state), scale_request = None, raised = None \<rparr>
         | Some rps \<Rightarrow>
            (let (state1, smoothed) = update_smoothed_rps cfg state rps in
             (case get_current_replicas env of
               None \<Rightarrow> \<lparr> states = sts(svc \<mapsto> state1), scale_request = None, raised = None \<rparr>
             | Some current_k8s_replicas \<Rightarrow>
                (let state2 = state1\<lparr>current_replicas := current_k8s_replicas\<rparr> in
                 (case desired_replicas cfg (current_replicas state2) smoothed of
                   Inl e \<Rightarrow>
                     \<lparr> states = sts(svc \<mapsto> state2), scale_request = None, raised = Some e \<rparr>
                 | Inr (desired, why) \<Rightarrow>
                    (let (can_scale, cooldown_msg) =
                           should_scale cfg state2 (time_in_gate env) desired
                     in if desired \<noteq> current_replicas state2 then
                          (let act = (if desired > current_replicas state2
                                      then UPSCALE else DOWNSCALE)
                           in if can_scale then
                               (if scale_deployment env then
                                 \<lparr> states = sts(svc \<mapsto> state2\<lparr>
                                       current_replicas := desired,
                                       last_scale_time := time_applied env,
                                       scale_history := scale_history state2 @
                                         [\<lparr> h_timestamp = now_isoformat env, h_action = act,
                                            h_from = current_k8s_replicas, h_to = desired,
                                            h_rps = smoothed, h_reason = why \<rparr>]\<rparr>),
                                   scale_request = Some (svc, desired), raised = None \<rparr>
                                else \<lparr> states = sts(svc \<mapsto> state2),
                                       scale_request = Some (svc, desired), raised = None \<rparr>)
                             else \<lparr> states = sts(svc \<mapsto> state2), scale_request = None,
                                    raised = None \<rparr>)
                        else \<lparr> states = sts(svc \<mapsto> state2), scale_request = None,
                               raised = None \<rparr>)))))))"

section \<open>Properties of a batch run\<close>

text \<open>The state the batch driver holds for a service (a default one if it has none yet).\<close>

abbreviation state_of :: "simulation \<Rightarrow> string \<Rightarrow> BatchServiceState" where
  "state_of sim svc \<equiv> defaultdict_get new_BatchServiceState (service_states sim) svc"

text \<open>
  Two events of a run, the first earlier than the second: if both are applied actions on
  the same service, their time buckets are at least the cooldown period apart.
\<close>

definition separated :: "event \<Rightarrow> event \<Rightarrow> bool" where
  "separated e1 e2 =
     (applied e1 \<and> applied e2 \<and> ev_service e1 = ev_service e2 \<longrightarrow>
        ev_time_bucket e1 + COOLDOWN_PERIOD config \<le> ev_time_bucket e2)"

text \<open>
  An event whose decision was taken on a fresh state: the previous count is 1, the smoothed
  rate is the raw rate, and the new count is the target computed for the count 1 if the
  action was applied, and 1 otherwise.
\<close>

definition first_decision :: "event \<Rightarrow> bool" where
  "first_decision e =
     (ev_prev_replicas e = 1 \<and> ev_smoothed_rps e = ev_raw_rps e \<and>
      (\<exists>d why. desired_replicas_with_hysteresis 1 (ev_raw_rps e) = Inr (d, why) \<and>
         ev_new_replicas e = (if applied e then d else 1)))"

text \<open>
  The invariant of the loop of \<^verbatim>\<open>main\<close>: every state's replica count is a key of the
  table; no applied action is later than its service's last-scale time; applied actions on
  one service are separated; a service without an event has no state yet; the first event
  of every service is a first decision.
\<close>

definition batch_invariant :: "simulation \<Rightarrow> bool" where
  "batch_invariant sim =
     ((\<forall>svc. 1 \<le> st_current_replicas (state_of sim svc) \<and>
             st_current_replicas (state_of sim svc) \<le> 5) \<and>
      (\<forall>e \<in> set (events sim). applied e \<longrightarrow>
          ev_time_bucket e \<le> st_last_scale_time (state_of sim (ev_service e))) \<and>
      sorted_wrt separated (events sim) \<and>
      (\<forall>svc. svc \<notin> ev_service ` set (events sim) \<longrightarrow> service_states sim svc = None) \<and>
      (\<forall>i < length (events sim).
          (\<forall>j < i. ev_service (events sim ! j) \<noteq> ev_service (events sim ! i)) \<longrightarrow>
          first_decision (events sim ! i)))"

text \<open>
  A small dataset: two rows of one service in the bucket 60, a row without a timestamp, a
  row without an entity, and a row in the bucket 120.
\<close>

definition example_dataset :: "csv_row list" where
  "example_dataset =
     [\<lparr> item = Some ''web'', timestamp = Some (Finite 60), request_rate = Some (Finite 10) \<rparr>,
      \<lparr> item = Some ''web'', timestamp = Some (Finite 75), request_rate = Some (Finite 5) \<rparr>,
      \<lparr> item = Some ''web'', timestamp = None, request_rate = Some (Finite 7) \<rparr>,
      \<lparr> item = None, timestamp = Some (Finite 80), request_rate = Some (Finite 7) \<rparr>,
      \<lparr> item = Some ''web'', timestamp = Some (Finite 130), request_rate = Some (Finite 100) \<rparr>]"

text \<open>A dataset whose first decision comes before the cooldown period has passed.\<close>

definition early_dataset :: "csv_row list" where
  "early_dataset =
     [\<lparr> item = Some ''web'', timestamp = Some (Finite 30), request_rate = Some (Finite 15) \<rparr>]"

text \<open>
  A dataset of two rows in one bucket, each with the finite rate \<^verbatim>\<open>1e308\<close>; their sum
  overflows.
\<close>

definition rate_1e308 :: real where
  "rate_1e308 = 10 ^ 308"

definition overflow_dataset :: "csv_row list" where
  "overflow_dataset =
     [\<lparr> item = Some ''web'', timestamp = Some (Finite 60),
         request_rate = Some (Finite rate_1e308) \<rparr>,
      \<lparr> item = Some ''web'', timestamp = Some (Finite 61),
         request_rate = Some (Finite rate_1e308) \<rparr>]"

section \<open>Smoothing update\<close>

lemma update_smoothed_rps_value:
  "update_smoothed_rps cfg state s = (state', v) \<Longrightarrow>
     v = smoothed_rps state' \<and> raw_rps state' = s \<and>
     smoothed_rps state' =
       (if smoothed_rps state = 0 then s
        else EMA_ALPHA cfg * s + (1 - EMA_ALPHA cfg) * smoothed_rps state)"
  by (auto simp: update_smoothed_rps_def Let_def)

lemma length_smoothed_sequence [simp]:
  "length (smoothed_sequence cfg state samples) = length samples"
  by (induction samples arbitrary: state) (auto split: prod.splits)

lemma smoothed_sequence_nth:
  "i < length samples \<Longrightarrow>
   smoothed_sequence cfg state samples ! i =
     (let prev = (if i = 0 then smoothed_rps state
                  else smoothed_sequence cfg state samples ! (i - 1))
      in if prev = 0 then samples ! i
         else EMA_ALPHA cfg * samples ! i + (1 - EMA_ALPHA cfg) * prev)"
proof (induction samples arbitrary: state i)
  case Nil
  then show ?case by simp
next
  case (Cons s samples)
  obtain state' v where u: "update_smoothed_rps cfg state s = (state', v)"
    by (cases "update_smoothed_rps cfg state s")
  note val = update_smoothed_rps_value [OF u]
  show ?case
  proof (cases i)
    case 0
    then show ?thesis using u val by simp
  next
    case (Suc j)
    then have j: "j < length samples" using Cons.prems by simp
    show ?thesis
    proof (cases j)
      case 0
      then show ?thesis using Suc u j Cons.IH [OF j, of state'] by (simp add: Let_def)
    next
      case (Suc k)
      then show ?thesis using \<open>i = Suc j\<close> u j Cons.IH [OF j, of state'] by (simp add: Let_def)
    qed
  qed
qed

text \<open>
  C1, as stated, fails: a stored smoothed value of exactly 0 is the "no history" marker, so
  after a first sample 0 the second sample 5 is stored as it is, where the recurrence
  gives 0.7 * 5 + 0.3 * 0 = 3.5.
\<close>

theorem smoothing_zero_counterexample:
  "smoothed_sequence config (new_ServiceState :: (int, unit) ServiceState) [0, 5] ! 1 = 5 \<and>
   EMA_ALPHA config * [0, 5] ! 1 + (1 - EMA_ALPHA config) *
     smoothed_sequence config (new_ServiceState :: (int, unit) ServiceState) [0, 5] ! 0 = 7 / 2"
  by (simp add: update_smoothed_rps_def new_ServiceState_def config_def)

text \<open>
  C1 (amended): for every smoothing weight and every sequence of samples fed through the
  smoothing update on a fresh state, the value stored by the first call is the first sample,
  and the value stored by a later call i is the sample itself when the value stored by call
  i - 1 is exactly 0, and alpha * sample + (1 - alpha) * previous otherwise.
\<close>

theorem smoothing_recurrence:
  fixes samples :: "real list"
  assumes "i < length samples"
  shows "smoothed_sequence cfg (new_ServiceState :: ('t :: zero, 'h) ServiceState) samples ! i =
     (if i = 0 then samples ! 0
      else if smoothed_sequence cfg (new_ServiceState :: ('t, 'h) ServiceState) samples ! (i - 1) = 0
           then samples ! i
           else EMA_ALPHA cfg * samples ! i + (1 - EMA_ALPHA cfg) *
                  smoothed_sequence cfg (new_ServiceState :: ('t, 'h) ServiceState) samples ! (i - 1))"
  using smoothed_sequence_nth [OF assms, of cfg "new_ServiceState :: ('t, 'h) ServiceState"]
  by (simp add: Let_def new_ServiceState_def)

theorem smoothing_recurrence_witness:
  "1 < length [15, 5 :: real] \<and>
   smoothed_sequence config (new_ServiceState :: (int, unit) ServiceState) [15, 5] ! 1 = 8"
  using smoothing_recurrence [of 1 "[15, 5]" config, where 't = int and 'h = unit]
  by (simp add: update_smoothed_rps_def new_ServiceState_def config_def)

section \<open>Hysteresis target computation\<close>

lemma upto_one_numeral: "[1..numeral n] = (1::int) # [2..numeral n]"
  by (simp add: upto_rec1)

lemma table_domain:
  "RPS_THRESHOLDS config cur = Some p \<Longrightarrow> cur = 1 \<or> cur = 2 \<or> cur = 3 \<or> cur = 4 \<or> cur = 5"
  by (simp add: config_def split: if_splits)

lemmas desired_eval = desired_replicas_def config_def upto_one_numeral

lemma desired_in_table:
  assumes "cur = 1 \<or> cur = 2 \<or> cur = 3 \<or> cur = 4 \<or> cur = 5"
  shows "\<exists>d why. desired_replicas config cur s = Inr (d, why) \<and> 1 \<le> d \<and> d \<le> 5"
  using assms by (elim disjE) (simp_all add: desired_eval)

text \<open>
  C4: the claim asks that the computation returns, with a count in [MIN_REPLICAS,
  MAX_REPLICAS], for every current count in that range. The code does not: MAX_REPLICAS is
  10 while the table stops at 5 (which its comment calls the maximum), so the lookup for
  the current count 6 raises KeyError.
\<close>

theorem lookup_fails_above_table:
  "MIN_REPLICAS config \<le> 6 \<and> 6 \<le> MAX_REPLICAS config \<and>
   desired_replicas config 6 5 = Inl (KeyError 6)"
  by (simp add: desired_eval)







text \<open>
  The fallback of the scan is reached when the table covers every level up to
  MAX_REPLICAS and none of them stops the scan, as in this two-level configuration.
\<close>

lemma scale_up_fallback_example:
  "desired_replicas
     \<lparr> COOLDOWN_PERIOD = 60, EMA_ALPHA = 7 / 10, MIN_REPLICAS = 1, MAX_REPLICAS = 2,
        RPS_THRESHOLDS = map_of [(1, (Fin 10, Fin 0)), (2, (Fin 30, Fin 8))] \<rparr> 1 50
   = Inr (2, ExceedsAll 50)"
  by (simp add: desired_replicas_def upto_one_numeral)


text \<open>
  C6: for every current count of the table, a rate equal to its scale-up threshold takes
  the scale-up path (the result is a higher count, with the scale-up reason), and a rate
  equal to its scale-down threshold leaves the count unchanged (stable path).
\<close>

theorem threshold_boundaries:
  assumes "RPS_THRESHOLDS config current = Some (up, down)"
  shows "(\<forall>u. up = Fin u \<longrightarrow>
            (\<exists>d. desired_replicas config current u = Inr (d, ScaleUpThreshold u up) \<and>
                 current < d)) \<and>
         (\<forall>l. down = Fin l \<longrightarrow>
            desired_replicas config current l = Inr (current, StableRange l down up))"
proof -
  from table_domain [OF assms]
  consider "current = 1" | "current = 2" | "current = 3" | "current = 4" | "current = 5"
    by blast
  then show ?thesis
  proof cases
    case 1
    then have "up = Fin 10" "down = Fin 0" using assms by (simp_all add: config_def)
    then show ?thesis using 1 by (simp add: desired_eval)
  next
    case 2
    then have "up = Fin 30" "down = Fin 8" using assms by (simp_all add: config_def)
    then show ?thesis using 2 by (simp add: desired_eval)
  next
    case 3
    then have "up = Fin 60" "down = Fin 25" using assms by (simp_all add: config_def)
    then show ?thesis using 3 by (simp add: desired_eval)
  next
    case 4
    then have "up = Fin 100" "down = Fin 50" using assms by (simp_all add: config_def)
    then show ?thesis using 4 by (simp add: desired_eval)
  next
    case 5
    then have "up = PInf" "down = Fin 90" using assms by (simp_all add: config_def)
    then show ?thesis using 5 by (simp add: desired_eval)
  qed
qed

theorem threshold_boundaries_witness:
  "RPS_THRESHOLDS config 2 = Some (Fin 30, Fin 8) \<and>
   desired_replicas config 2 30 = Inr (3, ScaleUpThreshold 30 (Fin 30)) \<and>
   desired_replicas config 2 8 = Inr (2, StableRange 8 (Fin 8) (Fin 30))"
proof -
  have lookup: "RPS_THRESHOLDS config 2 = Some (Fin 30, Fin 8)" by (simp add: config_def)
  from threshold_boundaries [OF lookup]
  have "desired_replicas config 2 8 = Inr (2, StableRange 8 (Fin 8) (Fin 30))" by simp
  moreover have "desired_replicas config 2 30 = Inr (3, ScaleUpThreshold 30 (Fin 30))"
    by (simp add: desired_eval)
  ultimately show ?thesis using lookup by simp
qed




section \<open>Live driver: replica lookup failure\<close>

text \<open>
  C8, as stated, fails: the smoothing update runs before the replica lookup, so when the
  lookup fails the raw and smoothed rates of the state have already been overwritten
  (here the smoothed rate goes from 0 to 15).
\<close>

theorem lookup_failure_mutates_counterexample:
  "map_option smoothed_rps
     (states (process_service config
        \<lparr> get_rps = Some 15, get_current_replicas = None, scale_deployment = True,
           time_in_gate = 100, time_applied = 100, now_isoformat = [] \<rparr>
        (Map.empty(''web'' \<mapsto> new_LiveServiceState\<lparr>service_name := ''web''\<rparr>)) ''web'') ''web'')
     = Some 15 \<and>
   map_option smoothed_rps
     ((Map.empty(''web'' \<mapsto> new_LiveServiceState\<lparr>service_name := ''web''\<rparr>)) ''web'') = Some 0"
  by (simp add: process_service_def defaultdict_get_def update_smoothed_rps_def
        new_LiveServiceState_def)

text \<open>
  C8 (amended): when the metrics query answers and the replica lookup fails, no scaling
  request is sent, no exception leaves the call, the states of other services are
  untouched, and the replica count, the last-scale time and the scaling history of the
  service's state are unchanged; its raw and smoothed rates are those of the smoothing
  update for this sample, and its name is set.
\<close>

theorem lookup_failure_skips_scaling:
  assumes "get_rps env = Some rps" and "get_current_replicas env = None"
  shows "\<exists>st'. states (process_service cfg env sts svc) = sts(svc \<mapsto> st') \<and>
           scale_request (process_service cfg env sts svc) = None \<and>
           raised (process_service cfg env sts svc) = None \<and>
           current_replicas st' = current_replicas (defaultdict_get new_LiveServiceState sts svc) \<and>
           last_scale_time st' = last_scale_time (defaultdict_get new_LiveServiceState sts svc) \<and>
           scale_history st' = scale_history (defaultdict_get new_LiveServiceState sts svc) \<and>
           service_name st' = svc \<and> raw_rps st' = rps \<and>
           smoothed_rps st' =
             (if smoothed_rps (defaultdict_get new_LiveServiceState sts svc) = 0 then rps
              else EMA_ALPHA cfg * rps + (1 - EMA_ALPHA cfg) *
                     smoothed_rps (defaultdict_get new_LiveServiceState sts svc))"
proof -
  let ?before = "defaultdict_get new_LiveServiceState sts svc"
  let ?st = "?before\<lparr>service_name := svc,
      smoothed_rps := (if smoothed_rps ?before = 0 then rps
                       else EMA_ALPHA cfg * rps + (1 - EMA_ALPHA cfg) * smoothed_rps ?before),
      raw_rps := rps\<rparr>"
  have "states (process_service cfg env sts svc) = sts(svc \<mapsto> ?st)"
       "scale_request (process_service cfg env sts svc) = None"
       "raised (process_service cfg env sts svc) = None"
    using assms by (simp_all add: process_service_def update_smoothed_rps_def Let_def)
  then show ?thesis by (intro exI [of _ ?st]) simp
qed

theorem lookup_failure_skips_scaling_witness:
  "\<exists>st'. states (process_service config
        \<lparr> get_rps = Some 15, get_current_replicas = None, scale_deployment = True,
           time_in_gate = 100, time_applied = 100, now_isoformat = [] \<rparr>
        Map.empty ''web'') = Map.empty(''web'' \<mapsto> st') \<and>
      current_replicas st' = 1 \<and> last_scale_time st' = 0 \<and> scale_history st' = [] \<and>
      raw_rps st' = 15 \<and> smoothed_rps st' = 15"
  using lookup_failure_skips_scaling [of
        "\<lparr> get_rps = Some 15, get_current_replicas = None, scale_deployment = True,
           time_in_gate = 100, time_applied = 100, now_isoformat = [] \<rparr>" 15 config Map.empty "''web''"]
  by (auto simp: defaultdict_get_def new_LiveServiceState_def)

section \<open>Batch driver: the loop invariant\<close>

lemma cooldown_config [simp]: "COOLDOWN_PERIOD config = 60"
  by (simp add: config_def)

lemmas hysteresis_eval = desired_replicas_with_hysteresis_def config_def upto_one_numeral

lemma hysteresis_in_table:
  assumes "cur = 1 \<or> cur = 2 \<or> cur = 3 \<or> cur = 4 \<or> cur = 5"
  shows "(\<exists>d why. desired_replicas_with_hysteresis cur s = Inr (d, why) \<and> 1 \<le> d \<and> d \<le> 5) \<or>
         desired_replicas_with_hysteresis cur s = Inl (KeyError 6)"
proof (cases s)
  case (Finite x)
  then show ?thesis using assms by (elim disjE) (simp_all add: hysteresis_eval)
next
  case PosInf
  then show ?thesis using assms by (elim disjE) (simp_all add: hysteresis_eval)
next
  case NegInf
  then show ?thesis using assms by (elim disjE) (simp_all add: hysteresis_eval)
next
  case NaN
  then show ?thesis using assms by (elim disjE) (simp_all add: hysteresis_eval)
qed

lemma process_row_result:
  fixes sim tb svc raw
  defines "st0 \<equiv> defaultdict_get new_BatchServiceState (service_states sim) svc"
  defines "sm \<equiv> (if st_smoothed_rps st0 = Finite 0 then raw
                  else float_add (float_mul (Finite (EMA_ALPHA config)) raw)
                         (float_mul (Finite (1 - EMA_ALPHA config)) (st_smoothed_rps st0)))"
  assumes ok: "1 \<le> st_current_replicas st0" "st_current_replicas st0 \<le> 5"
  shows "(\<exists>d why sim' st3 e.
     desired_replicas_with_hysteresis (st_current_replicas st0) sm = Inr (d, why) \<and>
     1 \<le> d \<and> d \<le> 5 \<and>
     process_row sim (tb, svc, raw) = (sim', None) \<and>
     service_states sim' = (service_states sim)(svc \<mapsto> st3) \<and>
     events sim' = events sim @ [e] \<and>
     ev_time_bucket e = tb \<and> ev_service e = svc \<and> ev_raw_rps e = raw \<and>
     ev_smoothed_rps e = sm \<and> ev_prev_replicas e = st_current_replicas st0 \<and>
     ev_new_replicas e = st_current_replicas st3 \<and>
     (applied e \<longleftrightarrow> d \<noteq> st_current_replicas st0 \<and>
        COOLDOWN_PERIOD config \<le> tb - st_last_scale_time st0) \<and>
     st_current_replicas st3 = (if applied e then d else st_current_replicas st0) \<and>
     st_last_scale_time st3 = (if applied e then tb else st_last_scale_time st0)) \<or>
   (\<exists>sim'. desired_replicas_with_hysteresis (st_current_replicas st0) sm = Inl (KeyError 6) \<and>
      process_row sim (tb, svc, raw) = (sim', Some (KeyError 6)) \<and>
      events sim' = events sim)"
proof -
  have "st_current_replicas st0 = 1 \<or> st_current_replicas st0 = 2 \<or>
        st_current_replicas st0 = 3 \<or> st_current_replicas st0 = 4 \<or>
        st_current_replicas st0 = 5"
    using ok by arith
  from hysteresis_in_table [OF this, of sm]
  consider (returns) d why where
      "desired_replicas_with_hysteresis (st_current_replicas st0) sm = Inr (d, why)"
      "1 \<le> d" "d \<le> 5"
    | (raises) "desired_replicas_with_hysteresis (st_current_replicas st0) sm = Inl (KeyError 6)"
    by blast
  then show ?thesis
  proof cases
    case returns
    have upd: "update_smoothed_rps_batch st0 raw =
                 (st0\<lparr>st_smoothed_rps := sm, st_raw_rps := raw\<rparr>, sm)"
      by (simp add: update_smoothed_rps_batch_def sm_def Let_def)
    show ?thesis
      using returns upd
      by (auto simp add: Let_def should_scale_batch_def applied_def st0_def [symmetric])
  next
    case raises
    have upd: "update_smoothed_rps_batch st0 raw =
                 (st0\<lparr>st_smoothed_rps := sm, st_raw_rps := raw\<rparr>, sm)"
      by (simp add: update_smoothed_rps_batch_def sm_def Let_def)
    show ?thesis
      using raises upd by (simp add: Let_def st0_def [symmetric])
  qed
qed

lemma batch_invariant_initial: "batch_invariant initial_simulation"
  by (simp add: batch_invariant_def initial_simulation_def defaultdict_get_def
        new_BatchServiceState_def)

lemma process_row_invariant:
  assumes inv: "batch_invariant sim"
  shows "(\<exists>sim'. process_row sim (tb, svc, raw) = (sim', None) \<and> batch_invariant sim' \<and>
            map (\<lambda>e. (ev_time_bucket e, ev_service e, ev_raw_rps e)) (events sim') =
            map (\<lambda>e. (ev_time_bucket e, ev_service e, ev_raw_rps e)) (events sim) @
              [(tb, svc, raw)]) \<or>
         (\<exists>sim'. process_row sim (tb, svc, raw) = (sim', Some (KeyError 6)) \<and>
            events sim' = events sim \<and>
            (svc \<notin> ev_service ` set (events sim) \<longrightarrow>
               desired_replicas_with_hysteresis 1 raw = Inl (KeyError 6)))"
proof -
  let ?st0 = "state_of sim svc"
  let ?sm = "if st_smoothed_rps ?st0 = Finite 0 then raw
             else float_add (float_mul (Finite (EMA_ALPHA config)) raw)
                    (float_mul (Finite (1 - EMA_ALPHA config)) (st_smoothed_rps ?st0))"
  have ok: "1 \<le> st_current_replicas ?st0" "st_current_replicas ?st0 \<le> 5"
    using inv by (simp_all add: batch_invariant_def)
  have fresh: "st_current_replicas ?st0 = 1 \<and> ?sm = raw"
    if "svc \<notin> ev_service ` set (events sim)"
  proof -
    have "service_states sim svc = None" using that inv by (simp add: batch_invariant_def)
    then have "?st0 = new_BatchServiceState" by (simp add: defaultdict_get_def)
    then show ?thesis by (simp add: new_BatchServiceState_def)
  qed
  from process_row_result [OF ok, where tb = tb and raw = raw]
  consider (returns) d why sim' st3 e where
      "1 \<le> d" "d \<le> 5"
      "desired_replicas_with_hysteresis (st_current_replicas ?st0) ?sm = Inr (d, why)"
      "process_row sim (tb, svc, raw) = (sim', None)"
      "service_states sim' = (service_states sim)(svc \<mapsto> st3)"
      "events sim' = events sim @ [e]"
      "ev_time_bucket e = tb" "ev_service e = svc" "ev_raw_rps e = raw"
      "ev_smoothed_rps e = ?sm"
      "ev_prev_replicas e = st_current_replicas ?st0"
      "ev_new_replicas e = st_current_replicas st3"
      "applied e \<longleftrightarrow> d \<noteq> st_current_replicas ?st0 \<and>
            COOLDOWN_PERIOD config \<le> tb - st_last_scale_time ?st0"
      "st_current_replicas st3 = (if applied e then d else st_current_replicas ?st0)"
      "st_last_scale_time st3 = (if applied e then tb else st_last_scale_time ?st0)"
    | (raises) sim' where
      "desired_replicas_with_hysteresis (st_current_replicas ?st0) ?sm = Inl (KeyError 6)"
      "process_row sim (tb, svc, raw) = (sim', Some (KeyError 6))"
      "events sim' = events sim"
    by blast
  then show ?thesis
  proof cases
    case raises
    have "desired_replicas_with_hysteresis 1 raw = Inl (KeyError 6)"
      if "svc \<notin> ev_service ` set (events sim)"
      using fresh [OF that] raises(1) by simp
    then show ?thesis using raises(2,3) by blast
  next
    case returns
    note d = returns(1,2) and des = returns(3) and run = returns(4) and sts = returns(5)
      and evs = returns(6) and e = returns(7-12) and app = returns(13)
      and cur3 = returns(14) and last3 = returns(15)
    have other: "state_of sim' s = state_of sim s" if "s \<noteq> svc" for s
      using that sts by (simp add: defaultdict_get_def)
    have self: "state_of sim' svc = st3"
      using sts by (simp add: defaultdict_get_def)
    have i1: "1 \<le> st_current_replicas (state_of sim' s) \<and>
              st_current_replicas (state_of sim' s) \<le> 5" for s
    proof (cases "s = svc")
      case True
      then show ?thesis using self cur3 d ok by simp
    next
      case False
      then show ?thesis using other inv by (simp add: batch_invariant_def)
    qed
    have last_mono: "st_last_scale_time ?st0 \<le> st_last_scale_time st3"
      using last3 app by auto
    have old_le: "ev_time_bucket x \<le> st_last_scale_time (state_of sim (ev_service x))"
      if "x \<in> set (events sim)" "applied x" for x
      using that inv by (simp add: batch_invariant_def)
    have i2: "ev_time_bucket x \<le> st_last_scale_time (state_of sim' (ev_service x))"
      if "x \<in> set (events sim')" "applied x" for x
    proof (cases "x \<in> set (events sim)")
      case True
      show ?thesis
      proof (cases "ev_service x = svc")
        case True
        then show ?thesis
          using old_le [OF \<open>x \<in> set (events sim)\<close> that(2)] self last_mono by simp
      next
        case False
        then show ?thesis using old_le [OF \<open>x \<in> set (events sim)\<close> that(2)] other by simp
      qed
    next
      case False
      then have "x = e" using that(1) evs by simp
      then show ?thesis using that(2) e self last3 by simp
    qed
    have sep_new: "separated x e" if "x \<in> set (events sim)" for x
    proof (cases "applied x \<and> applied e \<and> ev_service x = ev_service e")
      case True
      then have "ev_time_bucket x \<le> st_last_scale_time ?st0"
        using old_le [OF that] e by simp
      moreover have "COOLDOWN_PERIOD config \<le> tb - st_last_scale_time ?st0"
        using True app by simp
      ultimately show ?thesis using e by (simp add: separated_def)
    next
      case False
      then show ?thesis by (auto simp: separated_def)
    qed
    have i3: "sorted_wrt separated (events sim')"
      using inv sep_new evs by (simp add: batch_invariant_def sorted_wrt_append)
    have i4: "service_states sim' s = None" if "s \<notin> ev_service ` set (events sim')" for s
    proof -
      have "s \<noteq> svc" using that evs e by auto
      moreover have "s \<notin> ev_service ` set (events sim)" using that evs by auto
      ultimately show ?thesis using sts inv by (simp add: batch_invariant_def)
    qed
    have i5: "first_decision (events sim' ! i)"
      if "i < length (events sim')"
         "\<forall>j < i. ev_service (events sim' ! j) \<noteq> ev_service (events sim' ! i)" for i
    proof (cases "i < length (events sim)")
      case True
      then have "events sim' ! i = events sim ! i" using evs by (simp add: nth_append)
      moreover have "\<forall>j < i. ev_service (events sim ! j) \<noteq> ev_service (events sim ! i)"
        using that(2) True evs by (simp add: nth_append)
      ultimately show ?thesis using inv True by (simp add: batch_invariant_def)
    next
      case False
      then have i: "i = length (events sim)" using that(1) evs by simp
      then have ei: "events sim' ! i = e" using evs by simp
      have "svc \<notin> ev_service ` set (events sim)"
      proof
        assume "svc \<in> ev_service ` set (events sim)"
        then obtain j where "j < length (events sim)" "ev_service (events sim ! j) = svc"
          by (auto simp: in_set_conv_nth)
        then show False using that(2) i ei e evs by (auto simp: nth_append)
      qed
      from fresh [OF this] show ?thesis using ei e des cur3 by (simp add: first_decision_def)
    qed
    have "batch_invariant sim'"
      unfolding batch_invariant_def using i1 i2 i3 i4 i5 by blast
    then show ?thesis using run evs e by simp
  qed
qed

text \<open>What holds of the events when the loop is left, by its end or by an exception.\<close>

lemma process_rows_invariant:
  assumes "batch_invariant sim" and "process_rows sim rows = (sim', err)"
  shows "sorted_wrt separated (events sim') \<and>
     (\<forall>i < length (events sim').
          (\<forall>j < i. ev_service (events sim' ! j) \<noteq> ev_service (events sim' ! i)) \<longrightarrow>
          first_decision (events sim' ! i)) \<and>
     (\<exists>k \<le> length rows.
        map (\<lambda>e. (ev_time_bucket e, ev_service e, ev_raw_rps e)) (events sim') =
        map (\<lambda>e. (ev_time_bucket e, ev_service e, ev_raw_rps e)) (events sim) @ take k rows \<and>
        (err = None \<longrightarrow> k = length rows) \<and>
        (\<forall>x. err = Some x \<longrightarrow> k < length rows \<and>
           (fst (snd (rows ! k)) \<notin> ev_service ` set (events sim') \<longrightarrow>
              desired_replicas_with_hysteresis 1 (snd (snd (rows ! k))) = Inl x)))"
  using assms
proof (induction rows arbitrary: sim)
  case Nil
  then show ?case by (simp add: batch_invariant_def)
next
  case (Cons row rows)
  obtain tb svc raw where row: "row = (tb, svc, raw)" by (cases row)
  from process_row_invariant [OF Cons.prems(1), of tb svc raw]
  consider (continues) sim1 where "process_row sim row = (sim1, None)" "batch_invariant sim1"
      "map (\<lambda>e. (ev_time_bucket e, ev_service e, ev_raw_rps e)) (events sim1) =
       map (\<lambda>e. (ev_time_bucket e, ev_service e, ev_raw_rps e)) (events sim) @ [row]"
    | (raises) sim1 where "process_row sim row = (sim1, Some (KeyError 6))"
      "events sim1 = events sim"
      "svc \<notin> ev_service ` set (events sim) \<longrightarrow>
         desired_replicas_with_hysteresis 1 raw = Inl (KeyError 6)"
    unfolding row by blast
  then show ?case
  proof cases
    case continues
    then have rest: "process_rows sim1 rows = (sim', err)" using Cons.prems(2) by simp
    from Cons.IH [OF continues(2) rest]
    obtain k where k: "k \<le> length rows"
      "map (\<lambda>e. (ev_time_bucket e, ev_service e, ev_raw_rps e)) (events sim') =
       map (\<lambda>e. (ev_time_bucket e, ev_service e, ev_raw_rps e)) (events sim1) @ take k rows"
      "err = None \<longrightarrow> k = length rows"
      "\<forall>x. err = Some x \<longrightarrow> k < length rows \<and>
           (fst (snd (rows ! k)) \<notin> ev_service ` set (events sim') \<longrightarrow>
              desired_replicas_with_hysteresis 1 (snd (snd (rows ! k))) = Inl x)"
      and ev: "sorted_wrt separated (events sim')"
      "\<forall>i < length (events sim').
          (\<forall>j < i. ev_service (events sim' ! j) \<noteq> ev_service (events sim' ! i)) \<longrightarrow>
          first_decision (events sim' ! i)"
      by blast
    have "Suc k \<le> length (row # rows) \<and>
        map (\<lambda>e. (ev_time_bucket e, ev_service e, ev_raw_rps e)) (events sim') =
        map (\<lambda>e. (ev_time_bucket e, ev_service e, ev_raw_rps e)) (events sim) @
          take (Suc k) (row # rows) \<and>
        (err = None \<longrightarrow> Suc k = length (row # rows)) \<and>
        (\<forall>x. err = Some x \<longrightarrow> Suc k < length (row # rows) \<and>
           (fst (snd ((row # rows) ! Suc k)) \<notin> ev_service ` set (events sim') \<longrightarrow>
              desired_replicas_with_hysteresis 1 (snd (snd ((row # rows) ! Suc k))) = Inl x))"
      using k continues(3) by simp
    then show ?thesis using ev by blast
  next
    case raises
    then have fin: "sim' = sim1" "err = Some (KeyError 6)" using Cons.prems(2) by simp_all
    have inv: "sorted_wrt separated (events sim')"
      "\<forall>i < length (events sim').
          (\<forall>j < i. ev_service (events sim' ! j) \<noteq> ev_service (events sim' ! i)) \<longrightarrow>
          first_decision (events sim' ! i)"
      using Cons.prems(1) fin(1) raises(2) by (simp_all add: batch_invariant_def)
    have "(0::nat) \<le> length (row # rows) \<and>
        map (\<lambda>e. (ev_time_bucket e, ev_service e, ev_raw_rps e)) (events sim') =
        map (\<lambda>e. (ev_time_bucket e, ev_service e, ev_raw_rps e)) (events sim) @
          take 0 (row # rows) \<and>
        (err = None \<longrightarrow> 0 = length (row # rows)) \<and>
        (\<forall>x. err = Some x \<longrightarrow> 0 < length (row # rows) \<and>
           (fst (snd ((row # rows) ! 0)) \<notin> ev_service ` set (events sim') \<longrightarrow>
              desired_replicas_with_hysteresis 1 (snd (snd ((row # rows) ! 0))) = Inl x))"
      using fin raises(2,3) row by simp
    then show ?thesis using inv by blast
  qed
qed

lemma main_invariant:
  "sorted_wrt separated (events (fst (main df))) \<and>
     (\<forall>i < length (events (fst (main df))).
          (\<forall>j < i. ev_service (events (fst (main df)) ! j) \<noteq>
                   ev_service (events (fst (main df)) ! i)) \<longrightarrow>
          first_decision (events (fst (main df)) ! i)) \<and>
     (\<exists>k \<le> length (grouped df).
        map (\<lambda>e. (ev_time_bucket e, ev_service e, ev_raw_rps e)) (events (fst (main df))) =
          take k (grouped df) \<and>
        (snd (main df) = None \<longrightarrow> k = length (grouped df)) \<and>
        (\<forall>x. snd (main df) = Some x \<longrightarrow> k < length (grouped df) \<and>
           (fst (snd (grouped df ! k)) \<notin> ev_service ` set (events (fst (main df))) \<longrightarrow>
              desired_replicas_with_hysteresis 1 (snd (snd (grouped df ! k))) = Inl x)))"
  using process_rows_invariant [OF batch_invariant_initial, of "grouped df" "fst (main df)" "snd (main df)"]
  by (simp add: main_def initial_simulation_def)

section \<open>Batch driver: runs on concrete datasets\<close>

lemma max_float_bound: "(10::real) ^ 308 \<le> MAX_FLOAT"
  by (simp add: MAX_FLOAT_def)

lemma overflow_small: "\<bar>x\<bar> \<le> 10 ^ 308 \<Longrightarrow> overflow x = Finite x"
proof -
  assume a: "\<bar>x\<bar> \<le> 10 ^ 308"
  have "x \<le> MAX_FLOAT" "- MAX_FLOAT \<le> x" using a max_float_bound by linarith+
  then show ?thesis by (simp add: overflow_def)
qed

lemma overflow_1e308: "overflow rate_1e308 = Finite rate_1e308"
  by (rule overflow_small) (simp add: rate_1e308_def)

lemma overflow_sum: "overflow (2 * rate_1e308) = PosInf"
proof -
  have "MAX_FLOAT < 2 * rate_1e308" by (simp add: MAX_FLOAT_def rate_1e308_def)
  then show ?thesis by (simp only: overflow_def if_True)
qed

lemma overflow_moderate: "\<bar>x\<bar> \<le> 1000 \<Longrightarrow> overflow x = Finite x"
proof -
  assume "\<bar>x\<bar> \<le> 1000"
  moreover have "(1000::real) \<le> 10 ^ 308" by simp
  ultimately have "\<bar>x\<bar> \<le> 10 ^ 308" by (rule order_trans)
  then show ?thesis by (rule overflow_small)
qed

lemma ex_dropna:
  "dropna example_dataset =
     [(Some ''web'', Finite 60, Finite 10), (Some ''web'', Finite 75, Finite 5),
      (None, Finite 80, Finite 7), (Some ''web'', Finite 130, Finite 100)]"
  by (simp add: example_dataset_def overflow_moderate)

lemma ex_bucketed:
  "bucketed example_dataset =
     [((60, ''web''), Finite 10), ((60, ''web''), Finite 5), ((120, ''web''), Finite 100)]"
  by (simp add: bucketed_def ex_dropna CONTROL_INTERVAL_def)

lemma ex_keys: "sort (remdups (map fst (bucketed example_dataset))) = [(60, ''web''), (120, ''web'')]"
  by (simp add: ex_bucketed)

lemma ex_totals:
  "total_rps (bucketed example_dataset) (60, ''web'') = Finite 15"
  "total_rps (bucketed example_dataset) (120, ''web'') = Finite 100"
  by (simp_all add: ex_bucketed total_rps_def float_sum_def overflow_moderate)

lemma example_grouped:
  "grouped example_dataset = [(60, ''web'', Finite 15), (120, ''web'', Finite 100)]"
  by (simp add: grouped_def ex_keys ex_totals)

lemmas row_eval = main_def initial_simulation_def defaultdict_get_def
  new_BatchServiceState_def update_smoothed_rps_batch_def hysteresis_eval
  should_scale_batch_def Let_def overflow_moderate

lemma example_events:
  "events (fst (main example_dataset)) =
     [\<lparr> ev_time_bucket = 60, ev_service = ''web'', ev_raw_rps = Finite 15,
        ev_smoothed_rps = Finite 15, ev_prev_replicas = 1, ev_new_replicas = 2,
        ev_action = UPSCALE,
        ev_reason = Scaling (AboveScaleUp (Finite 15) (Fin 10)) \<rparr>,
      \<lparr> ev_time_bucket = 120, ev_service = ''web'', ev_raw_rps = Finite 100,
        ev_smoothed_rps = Finite (149 / 2), ev_prev_replicas = 2, ev_new_replicas = 4,
        ev_action = UPSCALE,
        ev_reason = Scaling (AboveScaleUp (Finite (149 / 2)) (Fin 30)) \<rparr>]"
  by (simp add: example_grouped row_eval)

lemma early_grouped: "grouped early_dataset = [(30, ''web'', Finite 15)]"
  by (simp add: early_dataset_def grouped_def bucketed_def total_rps_def float_sum_def
        CONTROL_INTERVAL_def overflow_moderate)

lemma early_events:
  "events (fst (main early_dataset)) =
     [\<lparr> ev_time_bucket = 30, ev_service = ''web'', ev_raw_rps = Finite 15,
        ev_smoothed_rps = Finite 15, ev_prev_replicas = 1, ev_new_replicas = 1,
        ev_action = BLOCKED, ev_reason = Gate (InCooldown 30) \<rparr>]"
  by (simp add: early_grouped row_eval)

lemma overflow_grouped: "grouped overflow_dataset = [(60, ''web'', PosInf)]"
  by (simp add: overflow_dataset_def grouped_def bucketed_def total_rps_def float_sum_def
        CONTROL_INTERVAL_def overflow_1e308 overflow_sum overflow_moderate)

lemma overflow_run:
  "events (fst (main overflow_dataset)) = []" "snd (main overflow_dataset) = Some (KeyError 6)"
  by (simp_all add: overflow_grouped row_eval)

section \<open>Batch driver: properties of every run\<close>

lemma filter_unique_key:
  "distinct (map f xs) \<Longrightarrow> k \<in> f ` set xs \<Longrightarrow> \<exists>x. filter (\<lambda>y. f y = k) xs = [x] \<and> x \<in> set xs"
proof (induction xs)
  case Nil
  then show ?case by simp
next
  case (Cons a xs)
  show ?case
  proof (cases "f a = k")
    case True
    then have "k \<notin> f ` set xs" using Cons.prems(1) by auto
    then have "filter (\<lambda>y. f y = k) xs = []" by (auto simp: filter_empty_conv)
    then show ?thesis using True by simp
  next
    case False
    then have "k \<in> f ` set xs" using Cons.prems(2) by auto
    from Cons.IH [OF _ this] Cons.prems(1) False show ?thesis by auto
  qed
qed

lemma grouped_keys:
  "map (\<lambda>(b, it, tot). (b, it)) (grouped df) = sort (remdups (map fst (bucketed df)))"
  by (simp add: grouped_def o_def)

lemma grouped_total:
  "(b, it, tot) \<in> set (grouped df) \<Longrightarrow> tot = total_rps (bucketed df) (b, it)"
  by (auto simp: grouped_def)

text \<open>
  A run that is not left by an exception emits, for every group of the dataset, exactly one
  event, whose raw rate is the float sum of the group's rates.
\<close>

lemma completed_run_aggregation:
  assumes completed: "snd (main df) = None" and key: "(b, it) \<in> fst ` set (bucketed df)"
  shows "\<exists>e. filter (\<lambda>e. ev_time_bucket e = b \<and> ev_service e = it) (events (fst (main df))) = [e] \<and>
             ev_raw_rps e = total_rps (bucketed df) (b, it)"
proof -
  let ?evs = "events (fst (main df))"
  let ?key = "\<lambda>e. (ev_time_bucket e, ev_service e)"
  from main_invariant [of df] completed
  have evs: "map (\<lambda>e. (ev_time_bucket e, ev_service e, ev_raw_rps e)) ?evs = grouped df"
    by auto
  have "map ?key ?evs =
        map (\<lambda>(b, it, tot). (b, it)) (map (\<lambda>e. (ev_time_bucket e, ev_service e, ev_raw_rps e)) ?evs)"
    by (simp add: o_def)
  then have keys: "map ?key ?evs = sort (remdups (map fst (bucketed df)))"
    using evs grouped_keys by simp
  then have dist: "distinct (map ?key ?evs)" by simp
  have "(b, it) \<in> set (map ?key ?evs)" using keys key by simp
  then have "(b, it) \<in> ?key ` set ?evs" by simp
  from filter_unique_key [OF dist this]
  obtain e where e: "filter (\<lambda>y. ?key y = (b, it)) ?evs = [e]" "e \<in> set ?evs"
    by blast
  have "e \<in> set (filter (\<lambda>y. ?key y = (b, it)) ?evs)" using e(1) by simp
  then have k: "ev_time_bucket e = b" "ev_service e = it" by auto
  have "(ev_time_bucket e, ev_service e, ev_raw_rps e) \<in> set (grouped df)"
    using e(2) evs [symmetric] by auto
  then have "ev_raw_rps e = total_rps (bucketed df) (b, it)"
    using k grouped_total by simp
  then show ?thesis using e(1) by auto
qed



text \<open>
  C9: the claim asks that every (bucket, entity) pair of any dataset gets exactly one
  result row, fed with the sum of its rows. The code does not emit the row when the float
  sum of the pair overflows: two rows with the finite rate 1e308 sum to infinity, the
  scale-up loop passes level 5 (\<^verbatim>\<open>inf < inf\<close> is false) and the lookup of level 6
  raises KeyError, because the table stops at 5 while MAX_REPLICAS is 10 (the defect of
  C4). The run is left without any event.
\<close>

theorem overflow_run_emits_no_row:
  "dropna overflow_dataset =
     [(Some ''web'', Finite 60, Finite rate_1e308), (Some ''web'', Finite 61, Finite rate_1e308)] \<and>
   grouped overflow_dataset = [(60, ''web'', PosInf)] \<and>
   events (fst (main overflow_dataset)) = [] \<and>
   snd (main overflow_dataset) = Some (KeyError 6)"
proof -
  have "dropna overflow_dataset =
     [(Some ''web'', Finite 60, Finite rate_1e308), (Some ''web'', Finite 61, Finite rate_1e308)]"
    by (simp add: overflow_dataset_def overflow_1e308 overflow_moderate)
  then show ?thesis using overflow_grouped overflow_run by simp
qed

text \<open>
  C10: a new Service State has replica count 1, raw and smoothed rate 0, last-scale time 0
  and an empty history, in both drivers; and in every batch run the first decision of
  every service is computed against the replica count 1: the first event of a service has
  the previous count 1 and, as new count, the target computed for the count 1 (if applied)
  or 1 (if not), and when the first decision of a service raises, the exception is the one
  of the target computation for the count 1.
\<close>

theorem fresh_state_defaults:
  "st_current_replicas new_BatchServiceState = 1 \<and>
   st_raw_rps new_BatchServiceState = Finite 0 \<and>
   st_smoothed_rps new_BatchServiceState = Finite 0 \<and>
   st_last_scale_time new_BatchServiceState = 0 \<and>
   st_scale_history new_BatchServiceState = [] \<and>
   current_replicas new_LiveServiceState = 1 \<and>
   raw_rps new_LiveServiceState = 0 \<and>
   smoothed_rps new_LiveServiceState = 0 \<and>
   last_scale_time new_LiveServiceState = 0 \<and>
   scale_history new_LiveServiceState = [] \<and>
   (\<forall>i < length (events (fst (main df))).
      (\<forall>j < i. ev_service (events (fst (main df)) ! j) \<noteq>
               ev_service (events (fst (main df)) ! i)) \<longrightarrow>
      ev_prev_replicas (events (fst (main df)) ! i) = 1 \<and>
      (\<exists>d why. desired_replicas_with_hysteresis 1 (ev_smoothed_rps (events (fst (main df)) ! i))
                  = Inr (d, why) \<and>
         ev_new_replicas (events (fst (main df)) ! i) =
           (if applied (events (fst (main df)) ! i) then d else 1))) \<and>
   (\<forall>x. snd (main df) = Some x \<longrightarrow>
      length (events (fst (main df))) < length (grouped df) \<and>
      (fst (snd (grouped df ! length (events (fst (main df))))) \<notin>
          ev_service ` set (events (fst (main df))) \<longrightarrow>
       desired_replicas_with_hysteresis 1
         (snd (snd (grouped df ! length (events (fst (main df)))))) = Inl x))"
proof -
  let ?evs = "events (fst (main df))"
  from main_invariant [of df]
  obtain k where first: "\<forall>i < length ?evs.
          (\<forall>j < i. ev_service (?evs ! j) \<noteq> ev_service (?evs ! i)) \<longrightarrow>
          first_decision (?evs ! i)"
    and k: "k \<le> length (grouped df)"
      "map (\<lambda>e. (ev_time_bucket e, ev_service e, ev_raw_rps e)) ?evs = take k (grouped df)"
    and abort: "\<forall>x. snd (main df) = Some x \<longrightarrow> k < length (grouped df) \<and>
           (fst (snd (grouped df ! k)) \<notin> ev_service ` set ?evs \<longrightarrow>
              desired_replicas_with_hysteresis 1 (snd (snd (grouped df ! k))) = Inl x)"
    by blast
  have "length (map (\<lambda>e. (ev_time_bucket e, ev_service e, ev_raw_rps e)) ?evs) =
        length (take k (grouped df))"
    using k(2) by simp
  then have len: "length ?evs = k" using k(1) by simp
  have a: "\<forall>i < length ?evs.
      (\<forall>j < i. ev_service (?evs ! j) \<noteq> ev_service (?evs ! i)) \<longrightarrow>
      ev_prev_replicas (?evs ! i) = 1 \<and>
      (\<exists>d why. desired_replicas_with_hysteresis 1 (ev_smoothed_rps (?evs ! i)) = Inr (d, why) \<and>
         ev_new_replicas (?evs ! i) = (if applied (?evs ! i) then d else 1))"
    using first unfolding first_decision_def by metis
  have b: "\<forall>x. snd (main df) = Some x \<longrightarrow>
      length ?evs < length (grouped df) \<and>
      (fst (snd (grouped df ! length ?evs)) \<notin> ev_service ` set ?evs \<longrightarrow>
       desired_replicas_with_hysteresis 1 (snd (snd (grouped df ! length ?evs))) = Inl x)"
    using abort len by simp
  have c: "st_current_replicas new_BatchServiceState = 1 \<and>
   st_raw_rps new_BatchServiceState = Finite 0 \<and>
   st_smoothed_rps new_BatchServiceState = Finite 0 \<and>
   st_last_scale_time new_BatchServiceState = 0 \<and>
   st_scale_history new_BatchServiceState = [] \<and>
   current_replicas new_LiveServiceState = 1 \<and>
   raw_rps new_LiveServiceState = 0 \<and>
   smoothed_rps new_LiveServiceState = 0 \<and>
   last_scale_time new_LiveServiceState = 0 \<and>
   scale_history new_LiveServiceState = []"
    by (simp add: new_BatchServiceState_def new_LiveServiceState_def)
  from a b c show ?thesis by blast
qed

theorem fresh_state_defaults_witness:
  "0 < length (events (fst (main example_dataset))) \<and>
   ev_prev_replicas (events (fst (main example_dataset)) ! 0) = 1 \<and>
   ev_new_replicas (events (fst (main example_dataset)) ! 0) = 2 \<and>
   applied (events (fst (main example_dataset)) ! 0) \<and>
   desired_replicas_with_hysteresis 1 (Finite 15) = Inr (2, AboveScaleUp (Finite 15) (Fin 10)) \<and>
   snd (main overflow_dataset) = Some (KeyError 6) \<and>
   length (events (fst (main overflow_dataset))) < length (grouped overflow_dataset) \<and>
   desired_replicas_with_hysteresis 1 PosInf = Inl (KeyError 6)"
  using fresh_state_defaults [of example_dataset] fresh_state_defaults [of overflow_dataset]
  by (simp add: example_events overflow_run overflow_grouped applied_def hysteresis_eval)

section \<open>Cooldown gate\<close>

text \<open>
  When the clock has passed the cooldown period, as the epoch clock of the live driver
  always has, a first change on a fresh state is permitted.
\<close>

lemma first_action_permitted_late:
  "of_int (COOLDOWN_PERIOD cfg) \<le> current_time \<Longrightarrow>
   fst (should_scale cfg (new_ServiceState :: ('t :: linordered_idom, 'h) ServiceState)
          current_time desired)"
  by (simp add: should_scale_def new_ServiceState_def Let_def)

text \<open>
  C2: the claim asks that the first scaling action of a service is never blocked by the
  cooldown, at whatever time it is attempted. The code does not do that: a fresh state
  carries the last-scale time 0 as if an action had happened at time 0, so the gate blocks
  a first change attempted at the time bucket 30, and a batch run whose first row lies in
  the bucket 30 records the action BLOCKED.
\<close>

theorem first_action_blocked:
  "should_scale_batch new_BatchServiceState 30 2 = (False, InCooldown 30) \<and>
   map ev_action (events (fst (main early_dataset))) = [BLOCKED]"
  by (simp add: should_scale_batch_def new_BatchServiceState_def early_events)

end
